theory Spec2Isabelle
  imports Main "HOL-Library.Sublist"
begin

section \<open>The fitness planner of \<^verbatim>\<open>src/App.js\<close>\<close>

text \<open>
  The component \<^verbatim>\<open>App\<close> holds three pieces of React state: \<^verbatim>\<open>blocks\<close> (the catalog),
  \<^verbatim>\<open>graphData\<close> (one record per block name, with a count) and \<^verbatim>\<open>log\<close> (one entry per
  addition). The handlers are modelled as functions on a record of the three; an
  exception of the JavaScript is the left summand of a result.
\<close>

subsection \<open>Data\<close>

text \<open>
  The objects of the source all carry \<^verbatim>\<open>id\<close>, \<^verbatim>\<open>content\<close> and \<^verbatim>\<open>km\<close>. A catalog block has a
  string \<^verbatim>\<open>id\<close>, a log entry has the number returned by \<^verbatim>\<open>Date.now()\<close>. A record of
  \<^verbatim>\<open>graphData\<close> is a catalog block spread into a new object with \<^verbatim>\<open>count\<close>.
  The field \<^verbatim>\<open>id\<close> is written \<open>id'\<close>, since \<open>id\<close> is the identity function of HOL.
\<close>

record 'i item =
  id' :: 'i
  content :: string
  km :: int

type_synonym block = "string item"

type_synonym log_entry = "int item"

record graph_block = "string item" +
  count :: int

record state =
  blocks :: "block list"
  graphData :: "graph_block list"
  log :: "log_entry list"

datatype error = TypeError

definition initialBlocks :: "block list" where
  "initialBlocks =
     [\<lparr>id' = ''1'', content = ''Warm-up'', km = 2\<rparr>,
      \<lparr>id' = ''2'', content = ''Active'', km = 5\<rparr>,
      \<lparr>id' = ''3'', content = ''Cool-down'', km = 3\<rparr>,
      \<lparr>id' = ''4'', content = ''Step Repeats'', km = 4\<rparr>,
      \<lparr>id' = ''5'', content = ''Ramp Up'', km = 6\<rparr>,
      \<lparr>id' = ''6'', content = ''Ramp Down'', km = 4\<rparr>]"

text \<open>The three \<^verbatim>\<open>useState\<close> calls: the state of the first render.\<close>

definition initialState :: state where
  "initialState = \<lparr>blocks = initialBlocks, graphData = [], log = []\<rparr>"

subsection \<open>Adding a workout\<close>

text \<open>
  \<^verbatim>\<open>addToLog\<close> builds \<^verbatim>\<open>{ id: Date.now(), content: `${block.content}`, km: block.km }\<close>
  and appends it. The clock is outside the program: its reading is the argument \<open>now\<close>.
\<close>

definition addToLog :: "int \<Rightarrow> block \<Rightarrow> state \<Rightarrow> state" where
  "addToLog now block s =
     (let logEntry = \<lparr>id' = now, content = content block, km = km block\<rparr>
      in s\<lparr>log := log s @ [logEntry]\<rparr>)"

text \<open>
  \<^verbatim>\<open>addToGraph\<close>: the updater of \<^verbatim>\<open>setGraphData\<close> looks for a record of the same
  \<^verbatim>\<open>content\<close>; when there is one, every record of that \<^verbatim>\<open>content\<close> gets \<^verbatim>\<open>count + 1\<close>,
  otherwise \<^verbatim>\<open>{ ...block, count: 1 }\<close> is appended. Then \<^verbatim>\<open>addToLog(block)\<close>.
\<close>

definition addToGraph :: "int \<Rightarrow> block \<Rightarrow> state \<Rightarrow> state" where
  "addToGraph now block s =
     addToLog now block
       (s\<lparr>graphData :=
            (case find (\<lambda>b. content b = content block) (graphData s) of
               Some existingBlock \<Rightarrow>
                 map (\<lambda>b. if content b = content block then b\<lparr>count := count b + 1\<rparr> else b)
                   (graphData s)
             | None \<Rightarrow>
                 graphData s @
                   [\<lparr>id' = id' block, content = content block, km = km block, count = 1\<rparr>])\<rparr>)"

text \<open>
  The argument of \<^verbatim>\<open>onDragEnd\<close>: \<^verbatim>\<open>result.source\<close> is a location, \<^verbatim>\<open>result.destination\<close>
  is a location or \<^verbatim>\<open>null\<close>.
\<close>

record location =
  droppableId :: string
  index :: nat

record drop_result =
  source :: location
  destination :: "location option"

text \<open>
  \<^verbatim>\<open>handleDragEnd\<close> returns at once when there is no destination. Otherwise it reads
  \<^verbatim>\<open>blocks[result.source.index]\<close>. The drag-and-drop library reports the index of a
  rendered item, which is in range. Out of range the read gives \<^verbatim>\<open>undefined\<close>, and
  \<^verbatim>\<open>addToGraph(undefined)\<close> raises a TypeError at \<^verbatim>\<open>block.content\<close> (in the updater
  when \<^verbatim>\<open>graphData\<close> is not empty, in \<^verbatim>\<open>addToLog\<close> at the latest); the model returns
  the error and follows the page no further.
\<close>

definition handleDragEnd :: "int \<Rightarrow> drop_result \<Rightarrow> state \<Rightarrow> error + state" where
  "handleDragEnd now result s =
     (case destination result of
        None \<Rightarrow> Inr s
      | Some d \<Rightarrow>
          if index (source result) < length (blocks s)
          then (let draggedBlock = blocks s ! index (source result)
                in Inr (addToGraph now draggedBlock s))
          else Inl TypeError)"

subsection \<open>Deleting a log entry\<close>

text \<open>
  \<^verbatim>\<open>Array.prototype.map\<close> with a callback that may throw: the first exception ends the
  traversal.
\<close>

fun try_map :: "('a \<Rightarrow> error + 'b) \<Rightarrow> 'a list \<Rightarrow> error + 'b list" where
  "try_map f [] = Inr []"
| "try_map f (x # xs) =
     (case f x of
        Inl e \<Rightarrow> Inl e
      | Inr y \<Rightarrow> (case try_map f xs of Inl e \<Rightarrow> Inl e | Inr ys \<Rightarrow> Inr (y # ys)))"

text \<open>
  \<^verbatim>\<open>log.find(entry => entry.id === logId).content\<close>: \<^verbatim>\<open>find\<close> gives the first entry with
  that \<^verbatim>\<open>id\<close> or \<^verbatim>\<open>undefined\<close>, and reading \<^verbatim>\<open>.content\<close> of \<^verbatim>\<open>undefined\<close> raises a
  TypeError.
\<close>

definition found_content :: "int \<Rightarrow> log_entry list \<Rightarrow> error + string" where
  "found_content logId entries =
     (case find (\<lambda>entry. id' entry = logId) entries of
        None \<Rightarrow> Inl TypeError
      | Some entry \<Rightarrow> Inr (content entry))"

text \<open>
  \<^verbatim>\<open>deleteLogEntry\<close> queues two updaters. The one of \<^verbatim>\<open>setLog\<close> keeps the entries of
  the current log whose \<^verbatim>\<open>id\<close> differs from \<^verbatim>\<open>logId\<close>. The one of \<^verbatim>\<open>setGraphData\<close> maps
  over the current records and evaluates, for each record, \<^verbatim>\<open>log.find(...).content\<close>,
  where \<^verbatim>\<open>log\<close> is not the argument of an updater but the variable of the render in
  which the handler was created. That log is the argument \<open>renderLog\<close>: for the handler
  of the latest render it is the log of the state the event meets, before the removal;
  for a handler kept from an earlier render it is the log of that render. With no
  record the callback never runs and nothing is raised. The records left with
  \<^verbatim>\<open>count > 0\<close> are kept. An exception raised in an updater ends the render that runs
  it, and the component with it: the model returns it as the result of the handler.
\<close>

definition deleteLogEntry :: "log_entry list \<Rightarrow> int \<Rightarrow> state \<Rightarrow> error + state" where
  "deleteLogEntry renderLog logId s =
     (case try_map
             (\<lambda>block.
                case found_content logId renderLog of
                  Inl e \<Rightarrow> Inl e
                | Inr c \<Rightarrow>
                    Inr (if content block = c
                         then block\<lparr>count := (if count block > 1 then count block - 1 else 0)\<rparr>
                         else block))
             (graphData s) of
        Inl e \<Rightarrow> Inl e
      | Inr mapped \<Rightarrow>
          Inr (s\<lparr>log := filter (\<lambda>entry. id' entry \<noteq> logId) (log s),
                 graphData := filter (\<lambda>block. count block > 0) mapped\<rparr>))"

subsection \<open>Reset\<close>

definition resetAll :: "state \<Rightarrow> state" where
  "resetAll s = s\<lparr>log := [], graphData := []\<rparr>"

subsection \<open>Events\<close>

text \<open>
  What the rendered page can call: a click on a catalog item (\<^verbatim>\<open>addToGraph(block)\<close> with
  the item's block), the end of a drag, the Delete button of a log entry, the Reset
  button. Each event is handled to completion, and the page is rendered again, before
  the next one: an event meets the handlers of the latest render, so the Delete button
  calls \<^verbatim>\<open>deleteLogEntry\<close> with the log of the current state as its \<^verbatim>\<open>log\<close>. \<open>Click\<close> and
  \<open>DragEnd\<close> carry the reading of the clock.
\<close>

datatype event =
  Click int block
| DragEnd int drop_result
| Delete int
| Reset

fun step :: "event \<Rightarrow> state \<Rightarrow> error + state" where
  "step (Click now block) s = Inr (addToGraph now block s)"
| "step (DragEnd now result) s = handleDragEnd now result s"
| "step (Delete logId) s = deleteLogEntry (log s) logId s"
| "step Reset s = Inr (resetAll s)"

fun run :: "event list \<Rightarrow> state \<Rightarrow> error + state" where
  "run [] s = Inr s"
| "run (ev # evs) s = (case step ev s of Inl e \<Rightarrow> Inl e | Inr s' \<Rightarrow> run evs s')"

subsection \<open>Deleting every entry\<close>

text \<open>
  What the specification compares \<^verbatim>\<open>resetAll\<close> with: the Delete button of the first
  listed entry is pressed until no entry is listed. Every press removes at least the
  entry it belongs to, so the log gets shorter and the presses come to an end.
\<close>

function deleteEveryEntry :: "state \<Rightarrow> error + state" where
  "deleteEveryEntry s =
     (case log s of
        [] \<Rightarrow> Inr s
      | entry # rest \<Rightarrow>
          (case deleteLogEntry (log s) (id' entry) s of
             Inl e \<Rightarrow> Inl e
           | Inr s' \<Rightarrow> deleteEveryEntry s'))"
  by pat_completeness auto
termination
proof (relation "measure (\<lambda>s. length (log s))")
  show "wf (measure (\<lambda>s. length (log s)))"
    by simp
next
  fix s :: state and entry rest s'
  assume shape: "log s = entry # rest"
    and del: "deleteLogEntry (log s) (id' entry) s = Inr s'"
  have "log s' = filter (\<lambda>x. id' x \<noteq> id' entry) (log s)"
    using del by (auto simp: deleteLogEntry_def split: sum.splits)
  then have "length (log s') \<le> length rest"
    using shape by simp
  then show "(s', s) \<in> measure (\<lambda>s. length (log s))"
    using shape by simp
qed

declare deleteEveryEntry.simps [simp del]

subsection \<open>The invariants of the specification\<close>

text \<open>
  The central invariant of the specification: the count of every record is the number
  of log entries of its name, and no record has count 0.
\<close>

definition counts_agree :: "state \<Rightarrow> bool" where
  "counts_agree s \<longleftrightarrow>
     (\<forall>r\<in>set (graphData s).
        count r = int (length (filter (\<lambda>e. content e = content r) (log s))) \<and> count r \<noteq> 0)"

text \<open>
  What the handlers keep from one event to the next: the counts agree, no two entries
  share a token, and every entry has a record of its name.
\<close>

definition consistent :: "state \<Rightarrow> bool" where
  "consistent s \<longleftrightarrow>
     counts_agree s \<and> distinct (map id' (log s))
     \<and> (\<forall>e\<in>set (log s). \<exists>r\<in>set (graphData s). content r = content e)"

text \<open>
  A run in which every addition reads a clock value that no entry of the log carries at
  that moment.
\<close>

fun fresh_clock :: "event list \<Rightarrow> state \<Rightarrow> bool" where
  "fresh_clock [] s = True"
| "fresh_clock (ev # evs) s =
     ((case ev of
         Click now block \<Rightarrow> now \<notin> set (map id' (log s))
       | DragEnd now result \<Rightarrow> destination result = None \<or> now \<notin> set (map id' (log s))
       | Delete logId \<Rightarrow> True
       | Reset \<Rightarrow> True)
      \<and> (case step ev s of Inl e \<Rightarrow> True | Inr s' \<Rightarrow> fresh_clock evs s'))"

subsection \<open>The chart\<close>

text \<open>
  The template literal \<^verbatim>\<open>`hsl(${index * 60}, 50%, 60%)`\<close> prints the number
  \<^verbatim>\<open>index * 60\<close> in decimal (an array index times 60 is far below the range where
  JavaScript switches to exponent notation).
\<close>

definition digit :: "nat \<Rightarrow> char" where
  "digit d = ''0123456789'' ! d"

function string_of_nat :: "nat \<Rightarrow> string" where
  "string_of_nat n =
     (if n < 10 then [digit n] else string_of_nat (n div 10) @ [digit (n mod 10)])"
  by pat_completeness auto
termination
  by (relation "measure id") auto

declare string_of_nat.simps [simp del]

definition barColor :: "nat \<Rightarrow> string" where
  "barColor i = ''hsl('' @ string_of_nat (i * 60) @ '', 50%, 60%)''"

record dataset =
  label :: string
  data :: "int list"
  backgroundColor :: "string list"

record chart =
  labels :: "string list"
  datasets :: "dataset list"

text \<open>
  \<^verbatim>\<open>chartData\<close> is computed from \<^verbatim>\<open>graphData\<close> at every render; the callback of the third
  \<^verbatim>\<open>map\<close> ignores the record and uses its position.
\<close>

definition chartData :: "graph_block list \<Rightarrow> chart" where
  "chartData gd =
     \<lparr>labels = map (\<lambda>block. content block) gd,
      datasets =
        [\<lparr>label = ''Workout Count'',
          data = map (\<lambda>block. count block) gd,
          backgroundColor = map (\<lambda>(i, _). barColor i) (enumerate 0 gd)\<rparr>]\<rparr>"

text \<open>
  The graph section of the page: a paragraph when \<^verbatim>\<open>graphData.length === 0\<close>, the
  \<^verbatim>\<open>Bar\<close> component fed with \<^verbatim>\<open>chartData\<close> otherwise.
\<close>

datatype graph_section = Paragraph string | Bar chart

definition graphSection :: "graph_block list \<Rightarrow> graph_section" where
  "graphSection gd =
     (if length gd = 0 then Paragraph ''No workouts added yet.'' else Bar (chartData gd))"

subsection \<open>Example states\<close>

text \<open>The first two blocks of the catalog.\<close>

definition warmup :: block where
  "warmup = initialBlocks ! 0"

definition active :: block where
  "active = initialBlocks ! 1"

text \<open>After one Warm-up added at clock reading 1.\<close>

definition one_warmup :: state where
  "one_warmup =
     \<lparr>blocks = initialBlocks,
      graphData = [\<lparr>id' = ''1'', content = ''Warm-up'', km = 2, count = 1\<rparr>],
      log = [\<lparr>id' = 1, content = ''Warm-up'', km = 2\<rparr>]\<rparr>"

text \<open>
  Scenario 1 of the specification: Warm-up twice, then Active, at the clock readings 1,
  2 and 3.
\<close>

definition scenario1 :: state where
  "scenario1 =
     \<lparr>blocks = initialBlocks,
      graphData = [\<lparr>id' = ''1'', content = ''Warm-up'', km = 2, count = 2\<rparr>,
                   \<lparr>id' = ''2'', content = ''Active'', km = 5, count = 1\<rparr>],
      log = [\<lparr>id' = 1, content = ''Warm-up'', km = 2\<rparr>,
             \<lparr>id' = 2, content = ''Warm-up'', km = 2\<rparr>,
             \<lparr>id' = 3, content = ''Active'', km = 5\<rparr>]\<rparr>"

text \<open>
  Scenario 2 of the specification: scenario 1 after the Delete button of the first
  Warm-up entry.
\<close>

definition scenario2 :: state where
  "scenario2 =
     \<lparr>blocks = initialBlocks,
      graphData = [\<lparr>id' = ''1'', content = ''Warm-up'', km = 2, count = 1\<rparr>,
                   \<lparr>id' = ''2'', content = ''Active'', km = 5, count = 1\<rparr>],
      log = [\<lparr>id' = 2, content = ''Warm-up'', km = 2\<rparr>,
             \<lparr>id' = 3, content = ''Active'', km = 5\<rparr>]\<rparr>"

text \<open>Warm-up twice, at the clock readings 1 and 2.\<close>

definition two_warmups :: state where
  "two_warmups =
     \<lparr>blocks = initialBlocks,
      graphData = [\<lparr>id' = ''1'', content = ''Warm-up'', km = 2, count = 2\<rparr>],
      log = [\<lparr>id' = 1, content = ''Warm-up'', km = 2\<rparr>,
             \<lparr>id' = 2, content = ''Warm-up'', km = 2\<rparr>]\<rparr>"

text \<open>The same after the Delete button of the first entry.\<close>

definition one_left :: state where
  "one_left =
     \<lparr>blocks = initialBlocks,
      graphData = [\<lparr>id' = ''1'', content = ''Warm-up'', km = 2, count = 1\<rparr>],
      log = [\<lparr>id' = 2, content = ''Warm-up'', km = 2\<rparr>]\<rparr>"

text \<open>Two additions within one millisecond: Warm-up twice at clock reading 1.\<close>

definition same_ms_state :: state where
  "same_ms_state =
     \<lparr>blocks = initialBlocks,
      graphData = [\<lparr>id' = ''1'', content = ''Warm-up'', km = 2, count = 2\<rparr>],
      log = [\<lparr>id' = 1, content = ''Warm-up'', km = 2\<rparr>,
             \<lparr>id' = 1, content = ''Warm-up'', km = 2\<rparr>]\<rparr>"

text \<open>Warm-up and Active, both at clock reading 5.\<close>

definition mixed_ms_state :: state where
  "mixed_ms_state =
     \<lparr>blocks = initialBlocks,
      graphData = [\<lparr>id' = ''1'', content = ''Warm-up'', km = 2, count = 1\<rparr>,
                   \<lparr>id' = ''2'', content = ''Active'', km = 5, count = 1\<rparr>],
      log = [\<lparr>id' = 5, content = ''Warm-up'', km = 2\<rparr>,
             \<lparr>id' = 5, content = ''Active'', km = 5\<rparr>]\<rparr>"

lemmas eval_defs =
  initialState_def initialBlocks_def addToGraph_def addToLog_def deleteLogEntry_def
  found_content_def resetAll_def handleDragEnd_def warmup_def active_def

section \<open>Properties\<close>

subsection \<open>Auxiliary facts\<close>

lemma state_eqI:
  "blocks s = b \<Longrightarrow> graphData s = g \<Longrightarrow> log s = l \<Longrightarrow>
     s = \<lparr>blocks = b, graphData = g, log = l\<rparr>"
  for s :: state
  by auto

lemma try_map_total: "try_map (\<lambda>x. Inr (f x)) xs = Inr (map f xs)"
  by (induction xs) simp_all

lemma deleteLogEntry_log:
  "deleteLogEntry L logId s = Inr s' \<Longrightarrow>
     log s' = filter (\<lambda>entry. id' entry \<noteq> logId) (log s)"
  by (auto simp: deleteLogEntry_def split: sum.splits)

text \<open>
  When the token is found in the log of the handler's render, the callback of \<^verbatim>\<open>map\<close>
  never raises.
\<close>

lemma deleteLogEntry_found:
  assumes "find (\<lambda>entry. id' entry = logId) L = Some e"
  shows "deleteLogEntry L logId s =
           Inr (s\<lparr>log := filter (\<lambda>entry. id' entry \<noteq> logId) (log s),
                  graphData :=
                    filter (\<lambda>block. count block > 0)
                      (map (\<lambda>block.
                              if content block = content e
                              then block\<lparr>count :=
                                     (if count block > 1 then count block - 1 else 0)\<rparr>
                              else block)
                         (graphData s))\<rparr>)"
  using assms by (simp add: deleteLogEntry_def found_content_def try_map_total)

text \<open>When it is not found there, the first record makes the callback raise.\<close>

lemma deleteLogEntry_not_found:
  assumes "find (\<lambda>entry. id' entry = logId) L = None"
  shows "deleteLogEntry L logId s =
           (if graphData s = []
            then Inr (s\<lparr>log := filter (\<lambda>entry. id' entry \<noteq> logId) (log s)\<rparr>)
            else Inl TypeError)"
proof (cases "graphData s")
  case Nil
  then show ?thesis
    by (simp add: deleteLogEntry_def)
next
  case (Cons b bs)
  then show ?thesis
    using assms by (simp add: deleteLogEntry_def found_content_def)
qed

text \<open>A token that the log does not hold: the filter of \<^verbatim>\<open>setLog\<close> keeps every entry.\<close>

lemma filter_absent_token:
  "logId \<notin> id' ` set entries \<Longrightarrow> filter (\<lambda>entry. id' entry \<noteq> logId) entries = entries"
  by (induction entries) auto

lemma find_absent_token:
  "logId \<notin> id' ` set entries \<Longrightarrow> find (\<lambda>entry. id' entry = logId) entries = None"
  by (auto simp: find_None_iff)

lemma deleteLogEntry_not_listed:
  assumes "find (\<lambda>entry. id' entry = logId) (log s) = None"
  shows "deleteLogEntry (log s) logId s = (if graphData s = [] then Inr s else Inl TypeError)"
proof -
  have "logId \<notin> id' ` set (log s)"
    using assms by (auto simp: find_None_iff)
  then show ?thesis
    by (simp add: deleteLogEntry_not_found [OF assms] filter_absent_token)
qed

text \<open>
  The source writes \<^verbatim>\<open>count > 1 ? count - 1 : 0\<close>; once the records with
  \<^verbatim>\<open>count > 0\<close> are selected this is the same as subtracting 1.
\<close>

lemma decrement_filter:
  "filter (\<lambda>block. count block > 0)
     (map (\<lambda>block. if content block = c
                     then block\<lparr>count := (if count block > 1 then count block - 1 else 0)\<rparr>
                     else block) gd)
   = filter (\<lambda>block. count block > 0)
       (map (\<lambda>block::graph_block.
               if content block = c then block\<lparr>count := count block - 1\<rparr> else block) gd)"
  by (induction gd) auto

lemma no_match_unchanged:
  "\<forall>r\<in>set gd. content r \<noteq> c \<and> 1 \<le> count r \<Longrightarrow>
   filter (\<lambda>r. 0 < count r)
     (map (\<lambda>r::graph_block. if content r = c then r\<lparr>count := count r - 1\<rparr> else r) gd) = gd"
  by (induction gd) auto

lemma find_first_token: "2 \<le> length (filter P xs) \<Longrightarrow> \<exists>e. find P xs = Some e"
  by (cases "find P xs") (auto simp: find_None_iff filter_empty_conv dest!: filter_False)

lemma distinct_token_find:
  "distinct (map id' xs) \<Longrightarrow> e \<in> set xs \<Longrightarrow> find (\<lambda>x. id' x = id' e) xs = Some e"
  by (induction xs) (auto simp: image_iff)

lemma distinct_token_filter:
  "distinct (map id' xs) \<Longrightarrow> e \<in> set xs \<Longrightarrow>
     filter (\<lambda>x. id' x \<noteq> id' e) xs = remove1 e xs"
proof (induction xs)
  case Nil
  then show ?case by simp
next
  case (Cons x xs)
  show ?case
  proof (cases "x = e")
    case True
    then have "\<forall>y\<in>set xs. id' y \<noteq> id' e"
      using Cons.prems(1) by (auto simp: image_iff)
    then have "filter (\<lambda>y. id' y \<noteq> id' e) xs = xs"
      by (simp add: filter_id_conv)
    with True show ?thesis by simp
  next
    case False
    then have "e \<in> set xs" using Cons.prems(2) by simp
    moreover have "id' x \<noteq> id' e"
      using Cons.prems(1) \<open>e \<in> set xs\<close> by (auto simp: image_iff)
    ultimately show ?thesis
      using Cons False by simp
  qed
qed

lemma find_content_Some:
  "\<exists>r\<in>set gd. content r = c \<Longrightarrow> \<exists>b. find (\<lambda>b. content b = c) gd = Some b"
  by (cases "find (\<lambda>b. content b = c) gd") (auto simp: find_None_iff)

lemma find_content_None:
  "\<forall>r\<in>set gd. content r \<noteq> c \<Longrightarrow> find (\<lambda>b. content b = c) gd = None"
  by (simp add: find_None_iff)

lemma map_enumerate_index:
  "map (\<lambda>(i, _). f i) (enumerate n xs) = map f [n..<n + length xs]"
proof -
  have "map (\<lambda>(i, _). f i) (enumerate n xs) = map (f \<circ> fst) (enumerate n xs)"
    by (rule map_cong) auto
  also have "\<dots> = map f (map fst (enumerate n xs))"
    by (simp only: map_map)
  also have "\<dots> = map f [n..<n + length xs]"
    by (simp only: map_fst_enumerate)
  finally show ?thesis .
qed

subsection \<open>The catalog is never written\<close>

lemma blocks_deleteLogEntry: "deleteLogEntry L logId s = Inr s' \<Longrightarrow> blocks s' = blocks s"
  by (auto simp: deleteLogEntry_def split: sum.splits)

lemma blocks_addToGraph: "blocks (addToGraph now block s) = blocks s"
  by (simp add: addToGraph_def addToLog_def Let_def)

lemma blocks_handleDragEnd: "handleDragEnd now result s = Inr s' \<Longrightarrow> blocks s' = blocks s"
  by (auto simp: handleDragEnd_def blocks_addToGraph Let_def split: option.splits if_splits)

lemma blocks_step: "step ev s = Inr s' \<Longrightarrow> blocks s' = blocks s"
  by (cases ev)
    (auto simp: blocks_addToGraph resetAll_def dest: blocks_handleDragEnd blocks_deleteLogEntry)

lemma blocks_run: "run evs s = Inr s' \<Longrightarrow> blocks s' = blocks s"
proof (induction evs arbitrary: s)
  case Nil
  then show ?case by simp
next
  case (Cons ev evs)
  then obtain s1 where first: "step ev s = Inr s1" and rest: "run evs s1 = Inr s'"
    by (auto split: sum.splits)
  from Cons.IH [OF rest] blocks_step [OF first] show ?case
    by simp
qed

subsection \<open>The order of the records\<close>

text \<open>
  An addition keeps the names of the records in their order and puts a new name last; a
  deletion drops names and moves none.
\<close>

lemma subseq_filter_map_content:
  "(\<And>r. content (f r) = content r) \<Longrightarrow>
     subseq (map content (filter P (map f gd))) (map content gd)"
  for f :: "graph_block \<Rightarrow> graph_block"
  by (induction gd) auto

lemma names_deleteLogEntry:
  assumes "deleteLogEntry L logId s = Inr s'"
  shows "subseq (map content (graphData s')) (map content (graphData s))"
proof (cases "find (\<lambda>entry. id' entry = logId) L")
  case None
  then have "graphData s' = graphData s"
    using assms by (auto simp: deleteLogEntry_not_found split: if_splits)
  then show ?thesis by simp
next
  case (Some e)
  have "Inr s' = deleteLogEntry L logId s"
    using assms by simp
  then have "graphData s' = filter (\<lambda>r. 0 < count r)
      (map (\<lambda>r. if content r = content e then r\<lparr>count := count r - 1\<rparr> else r) (graphData s))"
    unfolding deleteLogEntry_found [OF Some] by (simp add: decrement_filter)
  then show ?thesis
    by (simp add: subseq_filter_map_content)
qed

lemma names_addToGraph:
  "map content (graphData (addToGraph now block s))
     = (if content block \<in> set (map content (graphData s))
        then map content (graphData s)
        else map content (graphData s) @ [content block])"
proof (cases "\<exists>r\<in>set (graphData s). content r = content block")
  case True
  then obtain b where "find (\<lambda>b. content b = content block) (graphData s) = Some b"
    using find_content_Some by blast
  then have "graphData (addToGraph now block s)
      = map (\<lambda>r. if content r = content block then r\<lparr>count := count r + 1\<rparr> else r) (graphData s)"
    by (simp add: addToGraph_def addToLog_def)
  moreover have "content block \<in> set (map content (graphData s))"
    using True by force
  ultimately show ?thesis
    by (simp add: comp_def if_distrib [of content] cong: if_cong)
next
  case False
  then have "find (\<lambda>b. content b = content block) (graphData s) = None"
    by (simp add: find_None_iff)
  then have "graphData (addToGraph now block s)
      = graphData s @ [\<lparr>id' = id' block, content = content block, km = km block, count = 1\<rparr>]"
    by (simp add: addToGraph_def addToLog_def)
  moreover have "content block \<notin> set (map content (graphData s))"
    using False by force
  ultimately show ?thesis
    by simp
qed

subsection \<open>With fresh clock readings the invariants hold\<close>

text \<open>
  As long as no addition reads a clock value that an entry of the log already carries,
  the handlers keep the state consistent, and deleting every entry then ends where
  \<^verbatim>\<open>resetAll\<close> ends.
\<close>

lemma consistent_initialState: "consistent initialState"
  by (simp add: consistent_def counts_agree_def initialState_def)

lemma consistent_resetAll: "consistent (resetAll s)"
  by (simp add: consistent_def counts_agree_def resetAll_def)

lemma length_filter_remove1:
  "e \<in> set xs \<Longrightarrow> P e \<Longrightarrow> Suc (length (filter P (remove1 e xs))) = length (filter P xs)"
  by (induction xs) auto

lemma length_filter_remove1_other:
  "\<not> P e \<Longrightarrow> length (filter P (remove1 e xs)) = length (filter P xs)"
  by (induction xs) auto

lemma consistent_addToGraph:
  assumes "consistent s" and "now \<notin> set (map id' (log s))"
  shows "consistent (addToGraph now block s)"
proof -
  let ?s' = "addToGraph now block s"
  let ?inc = "\<lambda>r::graph_block. if content r = content block then r\<lparr>count := count r + 1\<rparr> else r"
  let ?new = "\<lparr>id' = id' block, content = content block, km = km block, count = 1\<rparr>"
  have l: "log ?s' = log s @ [\<lparr>id' = now, content = content block, km = km block\<rparr>]"
    by (simp add: addToGraph_def addToLog_def)
  have agree: "count r = int (length (filter (\<lambda>x. content x = content r) (log s)))"
    and nonzero: "count r \<noteq> 0" if "r \<in> set (graphData s)" for r
    using assms(1) that unfolding consistent_def counts_agree_def by blast+
  have covered: "\<exists>r\<in>set (graphData s). content r = content x" if "x \<in> set (log s)" for x
    using assms(1) that by (simp add: consistent_def)
  have counted: "count (?inc r) = int (length (filter (\<lambda>x. content x = content r) (log ?s')))"
    if "r \<in> set (graphData s)" for r
    using agree [OF that] by (simp add: l)
  have c2: "distinct (map id' (log ?s'))"
    using assms by (simp add: consistent_def l)
  show ?thesis
  proof (cases "\<exists>r\<in>set (graphData s). content r = content block")
    case True
    then obtain b where "find (\<lambda>b. content b = content block) (graphData s) = Some b"
      using find_content_Some by blast
    then have g: "graphData ?s' = map ?inc (graphData s)"
      by (simp add: addToGraph_def addToLog_def)
    have c1: "counts_agree ?s'"
      unfolding counts_agree_def
    proof
      fix r' assume "r' \<in> set (graphData ?s')"
      then obtain r where r: "r \<in> set (graphData s)" "r' = ?inc r"
        unfolding g by auto
      have "content r' = content r" using r(2) by simp
      moreover have "count r' \<noteq> 0"
        using agree [OF r(1)] nonzero [OF r(1)] r(2) by simp
      ultimately show "count r' = int (length (filter (\<lambda>e. content e = content r') (log ?s')))
          \<and> count r' \<noteq> 0"
        using counted [OF r(1)] r(2) by simp
    qed
    have c3: "\<exists>r\<in>set (graphData ?s'). content r = content x" if "x \<in> set (log ?s')" for x
    proof -
      from that have "content x = content block \<or> x \<in> set (log s)"
        by (auto simp: l)
      then obtain r where r: "r \<in> set (graphData s)" "content r = content x"
        using True covered by metis
      then have "?inc r \<in> set (graphData ?s')" "content (?inc r) = content x"
        by (simp_all add: g)
      then show ?thesis by blast
    qed
    show ?thesis
      unfolding consistent_def using c1 c2 c3 by blast
  next
    case False
    then have "find (\<lambda>b. content b = content block) (graphData s) = None"
      by (simp add: find_None_iff)
    then have g: "graphData ?s' = graphData s @ [?new]"
      by (simp add: addToGraph_def addToLog_def)
    have "content x \<noteq> content block" if "x \<in> set (log s)" for x
      using covered [OF that] False by metis
    then have none: "filter (\<lambda>e. content e = content block) (log s) = []"
      by (simp add: filter_empty_conv)
    have c1: "counts_agree ?s'"
      unfolding counts_agree_def
    proof
      fix r' assume "r' \<in> set (graphData ?s')"
      then consider "r' \<in> set (graphData s)" | "r' = ?new"
        unfolding g by auto
      then show "count r' = int (length (filter (\<lambda>e. content e = content r') (log ?s')))
          \<and> count r' \<noteq> 0"
      proof cases
        case 1
        then have "content r' \<noteq> content block" using False by blast
        then show ?thesis
          using agree [OF 1] nonzero [OF 1] by (simp add: l)
      next
        case 2
        then show ?thesis
          using none by (simp add: l)
      qed
    qed
    have c3: "\<exists>r\<in>set (graphData ?s'). content r = content x" if "x \<in> set (log ?s')" for x
    proof -
      from that have "content x = content block \<or> x \<in> set (log s)"
        by (auto simp: l)
      then show ?thesis
      proof
        assume "content x = content block"
        then have "?new \<in> set (graphData ?s')" "content ?new = content x"
          by (simp_all add: g)
        then show ?thesis by blast
      next
        assume "x \<in> set (log s)"
        then show ?thesis
          using covered by (auto simp: g)
      qed
    qed
    show ?thesis
      unfolding consistent_def using c1 c2 c3 by blast
  qed
qed

lemma consistent_deleteLogEntry:
  assumes "consistent s" and "deleteLogEntry (log s) logId s = Inr s'"
  shows "consistent s'"
proof (cases "find (\<lambda>entry. id' entry = logId) (log s)")
  case None
  then have "s' = s"
    using assms(2) by (simp add: deleteLogEntry_not_listed split: if_splits)
  with assms(1) show ?thesis by simp
next
  case (Some e)
  then have e_in: "e \<in> set (log s)" and e_id: "id' e = logId"
    by (auto simp: find_Some_iff)
  have tokens: "distinct (map id' (log s))"
    using assms(1) by (simp add: consistent_def)
  let ?dec = "\<lambda>r::graph_block. if content r = content e then r\<lparr>count := count r - 1\<rparr> else r"
  have l: "log s' = remove1 e (log s)"
    using deleteLogEntry_log [OF assms(2)] distinct_token_filter [OF tokens e_in] e_id
    by simp
  have "Inr s' = deleteLogEntry (log s) logId s"
    using assms(2) by simp
  then have g: "graphData s' = filter (\<lambda>r. 0 < count r) (map ?dec (graphData s))"
    unfolding deleteLogEntry_found [OF Some] by (simp add: decrement_filter)
  have agree: "count r = int (length (filter (\<lambda>x. content x = content r) (log s)))"
    and nonzero: "count r \<noteq> 0" if "r \<in> set (graphData s)" for r
    using assms(1) that unfolding consistent_def counts_agree_def by blast+
  have counted: "count (?dec r) = int (length (filter (\<lambda>x. content x = content r) (log s')))"
    if "r \<in> set (graphData s)" for r
  proof (cases "content r = content e")
    case True
    then have "Suc (length (filter (\<lambda>x. content x = content r) (log s')))
        = length (filter (\<lambda>x. content x = content r) (log s))"
      unfolding l using e_in by (intro length_filter_remove1) simp_all
    with agree [OF that] True show ?thesis by simp
  next
    case False
    then have "length (filter (\<lambda>x. content x = content r) (log s'))
        = length (filter (\<lambda>x. content x = content r) (log s))"
      unfolding l by (intro length_filter_remove1_other) simp
    with agree [OF that] False show ?thesis by simp
  qed
  have c1: "counts_agree s'"
    unfolding counts_agree_def
  proof
    fix r' assume "r' \<in> set (graphData s')"
    then obtain r where r: "r \<in> set (graphData s)" "r' = ?dec r" "0 < count r'"
      unfolding g by auto
    have "content r' = content r" using r(2) by simp
    then show "count r' = int (length (filter (\<lambda>x. content x = content r') (log s')))
        \<and> count r' \<noteq> 0"
      using counted [OF r(1)] r(2,3) by simp
  qed
  have c2: "distinct (map id' (log s'))"
    unfolding l using tokens by (simp add: distinct_map distinct_remove1 inj_on_def)
  have c3: "\<exists>r\<in>set (graphData s'). content r = content x" if "x \<in> set (log s')" for x
  proof -
    have "x \<in> set (log s)"
      using that set_remove1_subset [of e "log s"] unfolding l by blast
    then obtain r where r: "r \<in> set (graphData s)" "content r = content x"
      using assms(1) by (auto simp: consistent_def)
    have "0 < length (filter (\<lambda>y. content y = content r) (log s'))"
      using that r(2) by (auto simp: filter_empty_conv)
    then have "0 < count (?dec r)"
      using counted [OF r(1)] by simp
    then have "?dec r \<in> set (graphData s')"
      unfolding g using r(1) by auto
    moreover have "content (?dec r) = content x"
      using r(2) by simp
    ultimately show ?thesis by blast
  qed
  show ?thesis
    unfolding consistent_def using c1 c2 c3 by blast
qed


lemma consistent_step:
  assumes "consistent s" and "fresh_clock [ev] s" and "step ev s = Inr s'"
  shows "consistent s'"
proof (cases ev)
  case (Click now block)
  then show ?thesis
    using assms by (auto intro: consistent_addToGraph)
next
  case (DragEnd now result)
  then show ?thesis
    using assms
    by (auto simp: handleDragEnd_def split: option.splits if_splits intro: consistent_addToGraph)
next
  case (Delete logId)
  then show ?thesis
    using assms consistent_deleteLogEntry by auto
next
  case Reset
  then show ?thesis
    using assms consistent_resetAll by auto
qed

lemma consistent_run:
  "consistent s \<Longrightarrow> fresh_clock evs s \<Longrightarrow> run evs s = Inr s' \<Longrightarrow> consistent s'"
proof (induction evs arbitrary: s)
  case Nil
  then show ?case by simp
next
  case (Cons ev evs)
  from Cons.prems(3) obtain s1 where first: "step ev s = Inr s1" and rest: "run evs s1 = Inr s'"
    by (auto split: sum.splits)
  have "fresh_clock [ev] s" and later: "fresh_clock evs s1"
    using Cons.prems(2) first by simp_all
  then have "consistent s1"
    using consistent_step [OF Cons.prems(1) _ first] by simp
  then show ?case
    using Cons.IH later rest by blast
qed

lemma consistent_counts:
  "consistent s \<Longrightarrow> counts_agree s \<and> distinct (map id' (log s))"
  by (simp add: consistent_def)

lemma consistent_empty_log:
  assumes "consistent s" and "log s = []"
  shows "graphData s = []"
proof (cases "graphData s")
  case Nil
  then show ?thesis .
next
  case (Cons r rs)
  then have "r \<in> set (graphData s)" by simp
  then have "count r = 0 \<and> count r \<noteq> 0"
    using assms unfolding consistent_def counts_agree_def by fastforce
  then show ?thesis by simp
qed

lemma consistent_deleteEveryEntry:
  "consistent s \<Longrightarrow> deleteEveryEntry s = Inr (resetAll s)"
proof (induction s rule: deleteEveryEntry.induct)
  case (1 s)
  show ?case
  proof (cases "log s")
    case Nil
    then have "graphData s = []"
      using "1.prems" consistent_empty_log by blast
    with Nil have "resetAll s = s"
      by (simp add: resetAll_def)
    with Nil show ?thesis
      by (simp add: deleteEveryEntry.simps)
  next
    case (Cons entry rest)
    then have "find (\<lambda>x. id' x = id' entry) (log s) = Some entry"
      by simp
    then obtain s' where del: "deleteLogEntry (log s) (id' entry) s = Inr s'"
      using deleteLogEntry_found by blast
    have "consistent s'"
      using consistent_deleteLogEntry [OF "1.prems" del] .
    then have "deleteEveryEntry s' = Inr (resetAll s')"
      using "1.IH" [OF Cons del] by simp
    moreover have "resetAll s' = resetAll s"
      using blocks_deleteLogEntry [OF del] by (simp add: resetAll_def)
    ultimately show ?thesis
      using Cons del by (simp add: deleteEveryEntry.simps)
  qed
qed

subsection \<open>Adding\<close>

text \<open>
  C5: in every state and for every block, adding the block appends exactly one entry at
  the tail of the log, with the clock reading as token and the block's name and
  distance; the catalog stays as it is; when a record of that name exists, the count of
  the records of that name grows by 1 and every other record is unchanged, otherwise one
  record with count 1 and the block's distance is appended. A click on a catalog item
  and a drag of that item that ends on a destination do the same.
\<close>

theorem addToGraph_appends_and_counts:
  "log (addToGraph now block s)
     = log s @ [\<lparr>id' = now, content = content block, km = km block\<rparr>]
   \<and> blocks (addToGraph now block s) = blocks s
   \<and> ((\<exists>r\<in>set (graphData s). content r = content block) \<longrightarrow>
        graphData (addToGraph now block s)
          = map (\<lambda>r. if content r = content block then r\<lparr>count := count r + 1\<rparr> else r)
              (graphData s))
   \<and> ((\<forall>r\<in>set (graphData s). content r \<noteq> content block) \<longrightarrow>
        graphData (addToGraph now block s)
          = graphData s
            @ [\<lparr>id' = id' block, content = content block, km = km block, count = 1\<rparr>])
   \<and> step (Click now block) s = Inr (addToGraph now block s)
   \<and> (\<forall>result d. destination result = Some d \<and> index (source result) < length (blocks s)
          \<and> blocks s ! index (source result) = block \<longrightarrow>
        step (DragEnd now result) s = Inr (addToGraph now block s))"
proof -
  have entries: "log (addToGraph now block s)
     = log s @ [\<lparr>id' = now, content = content block, km = km block\<rparr>]"
    by (simp add: addToGraph_def addToLog_def)
  have catalog: "blocks (addToGraph now block s) = blocks s"
    by (simp add: addToGraph_def addToLog_def)
  have existing: "graphData (addToGraph now block s)
          = map (\<lambda>r. if content r = content block then r\<lparr>count := count r + 1\<rparr> else r)
              (graphData s)"
    if "\<exists>r\<in>set (graphData s). content r = content block"
    using find_content_Some [OF that] by (auto simp: addToGraph_def addToLog_def)
  have fresh: "graphData (addToGraph now block s)
          = graphData s
            @ [\<lparr>id' = id' block, content = content block, km = km block, count = 1\<rparr>]"
    if "\<forall>r\<in>set (graphData s). content r \<noteq> content block"
    using find_content_None [OF that] by (simp add: addToGraph_def addToLog_def)
  have drag: "step (DragEnd now result) s = Inr (addToGraph now block s)"
    if "destination result = Some d" "index (source result) < length (blocks s)"
      "blocks s ! index (source result) = block" for result d
    using that by (simp add: handleDragEnd_def)
  show ?thesis
    using entries catalog existing fresh drag by simp
qed

theorem addToGraph_appends_and_counts_witness:
  "step (DragEnd 2 \<lparr>source = \<lparr>droppableId = ''workoutBlocks'', index = 0\<rparr>,
                    destination = Some \<lparr>droppableId = ''workoutBlocks'', index = 3\<rparr>\<rparr>)
        one_warmup
     = Inr (addToGraph 2 warmup one_warmup)
   \<and> step (Click 2 warmup) one_warmup = Inr (addToGraph 2 warmup one_warmup)
   \<and> addToGraph 2 warmup one_warmup
     = \<lparr>blocks = initialBlocks,
        graphData = [\<lparr>id' = ''1'', content = ''Warm-up'', km = 2, count = 2\<rparr>],
        log = [\<lparr>id' = 1, content = ''Warm-up'', km = 2\<rparr>,
               \<lparr>id' = 2, content = ''Warm-up'', km = 2\<rparr>]\<rparr>
   \<and> addToGraph 3 active one_warmup
     = \<lparr>blocks = initialBlocks,
        graphData = [\<lparr>id' = ''1'', content = ''Warm-up'', km = 2, count = 1\<rparr>,
                     \<lparr>id' = ''2'', content = ''Active'', km = 5, count = 1\<rparr>],
        log = [\<lparr>id' = 1, content = ''Warm-up'', km = 2\<rparr>,
               \<lparr>id' = 3, content = ''Active'', km = 5\<rparr>]\<rparr>"
proof -
  let ?res = "\<lparr>source = \<lparr>droppableId = ''workoutBlocks'', index = 0\<rparr>,
               destination = Some \<lparr>droppableId = ''workoutBlocks'', index = 3\<rparr>\<rparr>"
  have pre: "destination ?res = Some \<lparr>droppableId = ''workoutBlocks'', index = 3\<rparr>
      \<and> index (source ?res) < length (blocks one_warmup)
      \<and> blocks one_warmup ! index (source ?res) = warmup"
    by (simp add: one_warmup_def initialBlocks_def warmup_def)
  have has: "\<exists>r\<in>set (graphData one_warmup). content r = content warmup"
    by (simp add: one_warmup_def warmup_def initialBlocks_def)
  have hasnt: "\<forall>r\<in>set (graphData one_warmup). content r \<noteq> content active"
    by (simp add: one_warmup_def active_def initialBlocks_def)
  note again = addToGraph_appends_and_counts [of 2 warmup one_warmup]
  note other = addToGraph_appends_and_counts [of 3 active one_warmup]
  have drag: "step (DragEnd 2 ?res) one_warmup = Inr (addToGraph 2 warmup one_warmup)"
    using again pre by blast
  have click: "step (Click 2 warmup) one_warmup = Inr (addToGraph 2 warmup one_warmup)"
    using again by blast
  have "graphData (addToGraph 2 warmup one_warmup)
          = map (\<lambda>r. if content r = content warmup then r\<lparr>count := count r + 1\<rparr> else r)
              (graphData one_warmup)"
    using again has by blast
  then have second: "addToGraph 2 warmup one_warmup
     = \<lparr>blocks = initialBlocks,
        graphData = [\<lparr>id' = ''1'', content = ''Warm-up'', km = 2, count = 2\<rparr>],
        log = [\<lparr>id' = 1, content = ''Warm-up'', km = 2\<rparr>,
               \<lparr>id' = 2, content = ''Warm-up'', km = 2\<rparr>]\<rparr>"
    using again by (intro state_eqI) (simp_all add: one_warmup_def warmup_def initialBlocks_def)
  have "graphData (addToGraph 3 active one_warmup)
          = graphData one_warmup
            @ [\<lparr>id' = id' active, content = content active, km = km active, count = 1\<rparr>]"
    using other hasnt by blast
  then have first: "addToGraph 3 active one_warmup
     = \<lparr>blocks = initialBlocks,
        graphData = [\<lparr>id' = ''1'', content = ''Warm-up'', km = 2, count = 1\<rparr>,
                     \<lparr>id' = ''2'', content = ''Active'', km = 5, count = 1\<rparr>],
        log = [\<lparr>id' = 1, content = ''Warm-up'', km = 2\<rparr>,
               \<lparr>id' = 3, content = ''Active'', km = 5\<rparr>]\<rparr>"
    using other by (intro state_eqI) (simp_all add: one_warmup_def active_def initialBlocks_def)
  show ?thesis
    using drag click second first by simp
qed

text \<open>
  C10: a drag that ends with no destination leaves the state (the log, the records and
  the catalog) as it was, and raises nothing.
\<close>

theorem handleDragEnd_no_destination:
  "destination result = None \<Longrightarrow> handleDragEnd now result s = Inr s"
  by (simp add: handleDragEnd_def)

theorem handleDragEnd_no_destination_witness:
  "destination \<lparr>source = \<lparr>droppableId = ''workoutBlocks'', index = 0\<rparr>, destination = None\<rparr>
     = None
   \<and> handleDragEnd 7
        \<lparr>source = \<lparr>droppableId = ''workoutBlocks'', index = 0\<rparr>, destination = None\<rparr>
        scenario1
     = Inr scenario1"
  using handleDragEnd_no_destination
    [of "\<lparr>source = \<lparr>droppableId = ''workoutBlocks'', index = 0\<rparr>, destination = None\<rparr>"
      7 scenario1]
  by simp

subsection \<open>Deleting\<close>

text \<open>
  Deleting a listed token where no other entry shares it: exactly that entry leaves the
  log, the others keep their order, and the records of its name are lowered by 1 and
  dropped when the count is no longer positive.
\<close>

lemma deleteLogEntry_present:
  assumes "distinct (map id' (log s))" and "e \<in> set (log s)" and "id' e = logId"
  shows "\<exists>s'. deleteLogEntry (log s) logId s = Inr s'
     \<and> log s' = remove1 e (log s)
     \<and> blocks s' = blocks s
     \<and> graphData s'
         = filter (\<lambda>r. 0 < count r)
             (map (\<lambda>r. if content r = content e then r\<lparr>count := count r - 1\<rparr> else r)
                (graphData s))
     \<and> ((\<forall>r\<in>set (graphData s). content r \<noteq> content e \<and> 1 \<le> count r) \<longrightarrow>
          graphData s' = graphData s)"
proof -
  have found: "find (\<lambda>entry. id' entry = logId) (log s) = Some e"
    using distinct_token_find [OF assms(1,2)] assms(3) by simp
  have removed: "filter (\<lambda>entry. id' entry \<noteq> logId) (log s) = remove1 e (log s)"
    using distinct_token_filter [OF assms(1,2)] assms(3) by simp
  show ?thesis
    by (simp add: deleteLogEntry_found [OF found] decrement_filter removed no_match_unchanged)
qed

text \<open>
  In a consistent state, and so in every state reached with fresh clock readings, the
  Delete button of an entry does what the specification says of it: it removes exactly
  that entry, and a record of the entry's name exists and is lowered by 1.
\<close>

lemma consistent_deleteLogEntry_present:
  assumes "consistent s" and "e \<in> set (log s)"
  shows "\<exists>s'. step (Delete (id' e)) s = Inr s'
     \<and> log s' = remove1 e (log s)
     \<and> blocks s' = blocks s
     \<and> (\<exists>r\<in>set (graphData s). content r = content e)
     \<and> graphData s'
         = filter (\<lambda>r. 0 < count r)
             (map (\<lambda>r. if content r = content e then r\<lparr>count := count r - 1\<rparr> else r)
                (graphData s))"
proof -
  have tokens: "distinct (map id' (log s))"
    using assms(1) by (simp add: consistent_def)
  have "\<exists>r\<in>set (graphData s). content r = content e"
    using assms by (simp add: consistent_def)
  then show ?thesis
    using deleteLogEntry_present [OF tokens assms(2) refl] by auto
qed

text \<open>
  C4: the specification wants \<^verbatim>\<open>deleteLogEntry\<close>, called with a token of the log, to
  remove exactly the entry located by it. After Warm-up and Active are both added at
  clock reading 5, the Warm-up entry is in the log and removing exactly that entry
  would leave the Active entry; the Delete button of the Warm-up entry leaves the log
  empty, and the Active record stays with count 1.
\<close>

theorem same_ms_delete_removes_both:
  "run [Click 5 warmup, Click 5 active] initialState = Inr mixed_ms_state
   \<and> \<lparr>id' = 5, content = ''Warm-up'', km = 2\<rparr> \<in> set (log mixed_ms_state)
   \<and> remove1 \<lparr>id' = 5, content = ''Warm-up'', km = 2\<rparr> (log mixed_ms_state)
       = [\<lparr>id' = 5, content = ''Active'', km = 5\<rparr>]
   \<and> step (Delete 5) mixed_ms_state
       = Inr \<lparr>blocks = initialBlocks,
              graphData = [\<lparr>id' = ''2'', content = ''Active'', km = 5, count = 1\<rparr>],
              log = []\<rparr>"
  by (simp add: eval_defs mixed_ms_state_def)

text \<open>
  C9: when two or more entries of the log carry the token, one call of
  \<^verbatim>\<open>deleteLogEntry\<close> with it (from the handler of the current render) raises nothing and
  removes all of them (the log keeps the entries with another token, in their order),
  while the records are matched with the name of the first such entry only and each
  matching count is lowered by 1, not by the number of entries removed.
\<close>

theorem deleteLogEntry_same_token:
  assumes "2 \<le> length (filter (\<lambda>entry. id' entry = logId) (log s))"
  shows "\<exists>e s'. find (\<lambda>entry. id' entry = logId) (log s) = Some e
     \<and> deleteLogEntry (log s) logId s = Inr s'
     \<and> log s' = filter (\<lambda>entry. id' entry \<noteq> logId) (log s)
     \<and> length (log s') + length (filter (\<lambda>entry. id' entry = logId) (log s)) = length (log s)
     \<and> blocks s' = blocks s
     \<and> graphData s'
         = filter (\<lambda>r. 0 < count r)
             (map (\<lambda>r. if content r = content e then r\<lparr>count := count r - 1\<rparr> else r)
                (graphData s))"
proof -
  obtain e where e: "find (\<lambda>entry. id' entry = logId) (log s) = Some e"
    using find_first_token [OF assms] by blast
  let ?s' = "s\<lparr>log := filter (\<lambda>entry. id' entry \<noteq> logId) (log s),
                graphData := filter (\<lambda>r. 0 < count r)
             (map (\<lambda>r. if content r = content e then r\<lparr>count := count r - 1\<rparr> else r)
                (graphData s))\<rparr>"
  have "deleteLogEntry (log s) logId s = Inr ?s'"
    by (simp add: deleteLogEntry_found [OF e] decrement_filter)
  moreover have "length (filter (\<lambda>entry. id' entry \<noteq> logId) (log s))
      + length (filter (\<lambda>entry. id' entry = logId) (log s)) = length (log s)"
    using sum_length_filter_compl [of "\<lambda>entry. id' entry = logId" "log s"] by simp
  ultimately show ?thesis
    using e by simp
qed

theorem deleteLogEntry_same_token_witness:
  "2 \<le> length (filter (\<lambda>entry. id' entry = 1) (log same_ms_state))
   \<and> deleteLogEntry (log same_ms_state) 1 same_ms_state
       = Inr \<lparr>blocks = initialBlocks,
              graphData = [\<lparr>id' = ''1'', content = ''Warm-up'', km = 2, count = 1\<rparr>],
              log = []\<rparr>"
proof -
  have two: "2 \<le> length (filter (\<lambda>entry. id' entry = 1) (log same_ms_state))"
    by (simp add: same_ms_state_def)
  from deleteLogEntry_same_token [OF two] obtain e s'
    where "find (\<lambda>entry. id' entry = 1) (log same_ms_state) = Some e"
      and "deleteLogEntry (log same_ms_state) 1 same_ms_state = Inr s'"
      and "log s' = filter (\<lambda>entry. id' entry \<noteq> 1) (log same_ms_state)"
      and "blocks s' = blocks same_ms_state"
      and "graphData s'
         = filter (\<lambda>r. 0 < count r)
             (map (\<lambda>r. if content r = content e then r\<lparr>count := count r - 1\<rparr> else r)
                (graphData same_ms_state))"
    by blast
  then have "deleteLogEntry (log same_ms_state) 1 same_ms_state = Inr s' \<and> s' = \<lparr>blocks = initialBlocks,
              graphData = [\<lparr>id' = ''1'', content = ''Warm-up'', km = 2, count = 1\<rparr>],
              log = []\<rparr>"
    by (auto simp: same_ms_state_def intro!: state_eqI)
  with two show ?thesis
    by simp
qed

text \<open>
  C2, amended: in every state and for every token that is not in the log, a call of
  \<^verbatim>\<open>deleteLogEntry\<close> that returns leaves the log and the catalog as they were. When the
  log of the render that made the handler lists the token (so it is for every handler
  of the page, also for one kept from an earlier render), the call raises nothing, and
  the records named like the listed entry are lowered by 1 once more and dropped when
  the count is no longer positive; the records are unchanged when none of them has that
  name, in particular when there is none. When that log does not list the token either,
  the call changes nothing if there is no record and raises a TypeError if there is one.
\<close>

theorem deleteLogEntry_absent_token:
  assumes "logId \<notin> id' ` set (log s)"
  shows "(\<forall>s'. deleteLogEntry L logId s = Inr s' \<longrightarrow> log s' = log s \<and> blocks s' = blocks s)
   \<and> (\<forall>e. find (\<lambda>entry. id' entry = logId) L = Some e \<longrightarrow>
         deleteLogEntry L logId s
           = Inr (s\<lparr>graphData :=
                      filter (\<lambda>r. 0 < count r)
                        (map (\<lambda>r. if content r = content e then r\<lparr>count := count r - 1\<rparr>
                                   else r)
                           (graphData s))\<rparr>))
   \<and> (\<forall>e. find (\<lambda>entry. id' entry = logId) L = Some e
           \<and> (\<forall>r\<in>set (graphData s). content r \<noteq> content e \<and> 0 < count r) \<longrightarrow>
         deleteLogEntry L logId s = Inr s)
   \<and> (graphData s = [] \<longrightarrow> deleteLogEntry L logId s = Inr s)
   \<and> (find (\<lambda>entry. id' entry = logId) L = None \<and> graphData s \<noteq> [] \<longrightarrow>
         deleteLogEntry L logId s = Inl TypeError)"
proof -
  have kept: "filter (\<lambda>entry. id' entry \<noteq> logId) (log s) = log s"
    using assms by (rule filter_absent_token)
  have returns: "log s' = log s \<and> blocks s' = blocks s"
    if "deleteLogEntry L logId s = Inr s'" for s'
    using deleteLogEntry_log [OF that] blocks_deleteLogEntry [OF that] kept by simp
  have listed: "deleteLogEntry L logId s
           = Inr (s\<lparr>graphData :=
                      filter (\<lambda>r. 0 < count r)
                        (map (\<lambda>r. if content r = content e then r\<lparr>count := count r - 1\<rparr>
                                   else r)
                           (graphData s))\<rparr>)"
    if "find (\<lambda>entry. id' entry = logId) L = Some e" for e
    by (simp add: deleteLogEntry_found [OF that] decrement_filter kept)
  have unnamed: "deleteLogEntry L logId s = Inr s"
    if "find (\<lambda>entry. id' entry = logId) L = Some e"
      and "\<forall>r\<in>set (graphData s). content r \<noteq> content e \<and> 0 < count r" for e
  proof -
    have "\<forall>r\<in>set (graphData s). content r \<noteq> content e \<and> 1 \<le> count r"
      using that(2) by auto
    then show ?thesis
      by (simp add: listed [OF that(1)] no_match_unchanged)
  qed
  have none: "deleteLogEntry L logId s = Inr s" if "graphData s = []"
    using that by (simp add: deleteLogEntry_def kept)
  have raises: "deleteLogEntry L logId s = Inl TypeError"
    if "find (\<lambda>entry. id' entry = logId) L = None" and "graphData s \<noteq> []"
    using that by (simp add: deleteLogEntry_not_found)
  show ?thesis
    using returns listed unnamed none raises by blast
qed

theorem deleteLogEntry_absent_token_witness:
  "1 \<notin> id' ` set (log scenario2)
   \<and> deleteLogEntry (log scenario1) 1 scenario2
       = Inr \<lparr>blocks = initialBlocks,
              graphData = [\<lparr>id' = ''2'', content = ''Active'', km = 5, count = 1\<rparr>],
              log = log scenario2\<rparr>
   \<and> 3 \<notin> id' ` set (log two_warmups)
   \<and> deleteLogEntry (log scenario1) 3 two_warmups = Inr two_warmups
   \<and> 4 \<notin> id' ` set (log initialState)
   \<and> deleteLogEntry [] 4 initialState = Inr initialState
   \<and> 2 \<notin> id' ` set (log one_warmup)
   \<and> deleteLogEntry (log one_warmup) 2 one_warmup = Inl TypeError"
proof -
  let ?w = "\<lparr>id' = 1, content = ''Warm-up'', km = 2\<rparr> :: log_entry"
  let ?a = "\<lparr>id' = 3, content = ''Active'', km = 5\<rparr> :: log_entry"
  have gone1: "1 \<notin> id' ` set (log scenario2)"
    by (simp add: scenario2_def)
  have listed1: "find (\<lambda>entry. id' entry = 1) (log scenario1) = Some ?w"
    by (simp add: scenario1_def)
  have "deleteLogEntry (log scenario1) 1 scenario2
      = Inr (scenario2\<lparr>graphData :=
                filter (\<lambda>r. 0 < count r)
                  (map (\<lambda>r. if content r = content ?w then r\<lparr>count := count r - 1\<rparr> else r)
                     (graphData scenario2))\<rparr>)"
    using deleteLogEntry_absent_token [OF gone1, of "log scenario1"] listed1 by blast
  then have again: "deleteLogEntry (log scenario1) 1 scenario2
       = Inr \<lparr>blocks = initialBlocks,
              graphData = [\<lparr>id' = ''2'', content = ''Active'', km = 5, count = 1\<rparr>],
              log = log scenario2\<rparr>"
    by (simp add: scenario2_def)
  have gone3: "3 \<notin> id' ` set (log two_warmups)"
    by (simp add: two_warmups_def)
  have listed3: "find (\<lambda>entry. id' entry = 3) (log scenario1) = Some ?a"
    by (simp add: scenario1_def)
  have unnamed: "\<forall>r\<in>set (graphData two_warmups). content r \<noteq> content ?a \<and> 0 < count r"
    by (simp add: two_warmups_def)
  have noop: "deleteLogEntry (log scenario1) 3 two_warmups = Inr two_warmups"
    using deleteLogEntry_absent_token [OF gone3, of "log scenario1"] listed3 unnamed by blast
  have gone4: "4 \<notin> id' ` set (log initialState)"
    by (simp add: initialState_def)
  have empty: "graphData initialState = []"
    by (simp add: initialState_def)
  have start: "deleteLogEntry [] 4 initialState = Inr initialState"
    using deleteLogEntry_absent_token [OF gone4, of "[]"] empty by blast
  have gone2: "2 \<notin> id' ` set (log one_warmup)"
    by (simp add: one_warmup_def)
  have unlisted: "find (\<lambda>entry. id' entry = 2) (log one_warmup) = None"
    "graphData one_warmup \<noteq> []"
    by (simp_all add: one_warmup_def)
  have raised: "deleteLogEntry (log one_warmup) 2 one_warmup = Inl TypeError"
    using deleteLogEntry_absent_token [OF gone2, of "log one_warmup"] unlisted by blast
  show ?thesis
    using gone1 again gone3 noop gone4 start gone2 raised by simp
qed

text \<open>
  C2 as it is stated fails in both ways. Warm-up is added at the clock readings 1 and 2
  and the Delete button of the first entry is pressed; the handler of the render before
  that press, called once more with token 1, meets a log without that token, raises
  nothing, keeps the log, and lowers the Warm-up count again: the record goes while an
  entry of its name stays. And in scenario 1 a call with token 9, which neither log
  lists, raises a TypeError.
\<close>

theorem deleteLogEntry_absent_counterexample:
  "run [Click 1 warmup, Click 2 warmup] initialState = Inr two_warmups
   \<and> step (Delete 1) two_warmups = Inr one_left
   \<and> 1 \<notin> id' ` set (log one_left)
   \<and> graphData one_left = [\<lparr>id' = ''1'', content = ''Warm-up'', km = 2, count = 1\<rparr>]
   \<and> deleteLogEntry (log two_warmups) 1 one_left
       = Inr \<lparr>blocks = initialBlocks,
              graphData = [],
              log = [\<lparr>id' = 2, content = ''Warm-up'', km = 2\<rparr>]\<rparr>
   \<and> 9 \<notin> id' ` set (log scenario1)
   \<and> deleteLogEntry (log scenario1) 9 scenario1 = Inl TypeError"
  by (simp add: eval_defs two_warmups_def one_left_def scenario1_def)

subsection \<open>Two additions at one clock reading\<close>

text \<open>
  C3: the specification wants the tokens of the log to be pairwise different whatever
  the resolution of the clock. The token is the clock reading alone: Warm-up and Active
  both added at clock reading 5 give a log whose two entries carry the token 5.
\<close>

theorem same_ms_tokens_repeat:
  "run [Click 5 warmup, Click 5 active] initialState = Inr mixed_ms_state
   \<and> map id' (log mixed_ms_state) = [5, 5]
   \<and> \<not> distinct (map id' (log mixed_ms_state))"
  by (simp add: eval_defs mixed_ms_state_def)

text \<open>
  C1: the specification wants, in every reachable state, the count of each record to be
  the number of log entries of its name. After Warm-up is added twice at clock reading 1
  and the token 1 is deleted, the log is empty and the Warm-up record is still there
  with count 1. The counts do agree in every state reached with fresh clock readings
  (\<open>consistent_run\<close>); the state before the deletion has one token twice.
\<close>

theorem same_ms_count_exceeds_log:
  "run [Click 1 warmup, Click 1 warmup, Delete 1] initialState
     = Inr \<lparr>blocks = initialBlocks,
            graphData = [\<lparr>id' = ''1'', content = ''Warm-up'', km = 2, count = 1\<rparr>],
            log = []\<rparr>
   \<and> count \<lparr>id' = ''1'', content = ''Warm-up'', km = 2, count = 1\<rparr>
       \<noteq> int (length (filter (\<lambda>e. content e = ''Warm-up'') ([] :: log_entry list)))
   \<and> \<not> distinct (map id' (log same_ms_state))"
  by (simp add: eval_defs same_ms_state_def)

lemma same_ms_counts_disagree:
  "\<not> counts_agree
       \<lparr>blocks = initialBlocks,
        graphData = [\<lparr>id' = ''1'', content = ''Warm-up'', km = 2, count = 1\<rparr>],
        log = []\<rparr>"
  by (simp add: counts_agree_def)

subsection \<open>Reset\<close>

text \<open>
  C6: the specification wants \<^verbatim>\<open>resetAll\<close> to end in the same log and records as
  deleting every entry one at a time. From the state reached by adding Warm-up twice at
  clock reading 1, \<^verbatim>\<open>resetAll\<close> leaves no record, and deleting every entry leaves the
  Warm-up record with count 1. From a consistent state the two do end in the same state
  (\<open>consistent_deleteEveryEntry\<close>).
\<close>

theorem resetAll_differs_from_deleteEveryEntry:
  "run [Click 1 warmup, Click 1 warmup] initialState = Inr same_ms_state
   \<and> resetAll same_ms_state = \<lparr>blocks = initialBlocks, graphData = [], log = []\<rparr>
   \<and> deleteEveryEntry same_ms_state
       = Inr \<lparr>blocks = initialBlocks,
              graphData = [\<lparr>id' = ''1'', content = ''Warm-up'', km = 2, count = 1\<rparr>],
              log = []\<rparr>"
  by (simp add: eval_defs same_ms_state_def deleteEveryEntry.simps)

text \<open>
  C7: in every state \<^verbatim>\<open>resetAll\<close> empties the log and the records and keeps the catalog;
  and whatever events are handled from a state (clicks, drags, deletions, resets), the
  catalog of the state they end in is the catalog of the state they started from.
\<close>

theorem resetAll_clears:
  "log (resetAll s) = [] \<and> graphData (resetAll s) = [] \<and> blocks (resetAll s) = blocks s
   \<and> (\<forall>evs s'. run evs s = Inr s' \<longrightarrow> blocks s' = blocks s)"
  by (simp add: resetAll_def blocks_run)

theorem resetAll_clears_witness:
  "run [Click 1 warmup, Click 2 active, Delete 1, Reset] initialState
     = Inr \<lparr>blocks = initialBlocks, graphData = [], log = []\<rparr>
   \<and> blocks \<lparr>blocks = initialBlocks, graphData = [], log = []\<rparr> = blocks initialState"
proof -
  have r: "run [Click 1 warmup, Click 2 active, Delete 1, Reset] initialState
     = Inr \<lparr>blocks = initialBlocks, graphData = [], log = []\<rparr>"
    by (simp add: eval_defs)
  from resetAll_clears [of initialState] r show ?thesis
    by blast
qed

subsection \<open>The chart\<close>

text \<open>
  C8: the chart data are computed from the list of records alone. The labels are the
  names of the records in the order of the list, the data are their counts, and the
  colour at position \<open>i\<close> is \<open>barColor i\<close>, which depends on the position only; the three
  lists are as long as the list of records. The graph section shows the paragraph
  \<^verbatim>\<open>No workouts added yet.\<close> exactly when there is no record, and the bar chart of these
  data otherwise. The order of the labels is the order in which the records were
  created: an addition leaves the labels as they are or puts the new name last, and
  after a deletion the labels are a subsequence of the labels before.
\<close>

theorem chartData_series:
  "labels (chartData gd) = map content gd
   \<and> datasets (chartData gd) =
       [\<lparr>label = ''Workout Count'', data = map count gd,
         backgroundColor = map barColor [0..<length gd]\<rparr>]
   \<and> length (labels (chartData gd)) = length gd
   \<and> length (data (hd (datasets (chartData gd)))) = length gd
   \<and> length (backgroundColor (hd (datasets (chartData gd)))) = length gd
   \<and> (graphSection gd = Paragraph ''No workouts added yet.'') = (gd = [])
   \<and> (graphSection gd = Bar (chartData gd)) = (gd \<noteq> [])
   \<and> labels (chartData (graphData (addToGraph now block s)))
       = (if content block \<in> set (labels (chartData (graphData s)))
          then labels (chartData (graphData s))
          else labels (chartData (graphData s)) @ [content block])
   \<and> (\<forall>L logId s'. deleteLogEntry L logId s = Inr s' \<longrightarrow>
         subseq (labels (chartData (graphData s'))) (labels (chartData (graphData s))))"
proof -
  have names: "labels (chartData g) = map content g" for g
    by (simp add: chartData_def)
  show ?thesis
    unfolding names
    by (simp add: chartData_def graphSection_def map_enumerate_index names_addToGraph
        names_deleteLogEntry)
qed

theorem chartData_series_witness:
  "graphSection (graphData scenario1)
     = Bar \<lparr>labels = [''Warm-up'', ''Active''],
            datasets = [\<lparr>label = ''Workout Count'', data = [2, 1],
                         backgroundColor = [''hsl(0, 50%, 60%)'', ''hsl(60, 50%, 60%)'']\<rparr>]\<rparr>
   \<and> graphSection (graphData initialState) = Paragraph ''No workouts added yet.''
   \<and> deleteLogEntry (log scenario1) 3 scenario1
       = Inr \<lparr>blocks = initialBlocks,
              graphData = [\<lparr>id' = ''1'', content = ''Warm-up'', km = 2, count = 2\<rparr>],
              log = [\<lparr>id' = 1, content = ''Warm-up'', km = 2\<rparr>,
                     \<lparr>id' = 2, content = ''Warm-up'', km = 2\<rparr>]\<rparr>
   \<and> subseq
         (labels (chartData [\<lparr>id' = ''1'', content = ''Warm-up'', km = 2, count = 2\<rparr>]))
         (labels (chartData (graphData scenario1)))"
proof -
  note series = chartData_series [of "graphData scenario1" 0 warmup scenario1]
  have colors: "barColor 0 = ''hsl(0, 50%, 60%)''" "barColor (Suc 0) = ''hsl(60, 50%, 60%)''"
    by (simp_all add: barColor_def string_of_nat.simps digit_def)
  have two: "length (graphData scenario1) = 2" "graphData scenario1 \<noteq> []"
    by (simp_all add: scenario1_def)
  have chart_eq: "c = \<lparr>labels = labels c, datasets = datasets c\<rparr>" for c :: chart
    by simp
  have names: "labels (chartData (graphData scenario1)) = [''Warm-up'', ''Active'']"
    using series by (simp add: scenario1_def)
  have sets: "datasets (chartData (graphData scenario1))
     = [\<lparr>label = ''Workout Count'', data = [2, 1],
         backgroundColor = [''hsl(0, 50%, 60%)'', ''hsl(60, 50%, 60%)'']\<rparr>]"
    using series colors two by (simp add: scenario1_def)
  have "chartData (graphData scenario1)
     = \<lparr>labels = [''Warm-up'', ''Active''],
            datasets = [\<lparr>label = ''Workout Count'', data = [2, 1],
                         backgroundColor = [''hsl(0, 50%, 60%)'', ''hsl(60, 50%, 60%)'']\<rparr>]\<rparr>"
    by (subst chart_eq) (simp add: names sets)
  moreover have "graphSection (graphData scenario1) = Bar (chartData (graphData scenario1))"
    using series two by blast
  moreover have "graphSection (graphData initialState) = Paragraph ''No workouts added yet.''"
    using chartData_series [of "graphData initialState" 0 warmup initialState]
    by (simp add: initialState_def)
  moreover have del: "deleteLogEntry (log scenario1) 3 scenario1
       = Inr \<lparr>blocks = initialBlocks,
              graphData = [\<lparr>id' = ''1'', content = ''Warm-up'', km = 2, count = 2\<rparr>],
              log = [\<lparr>id' = 1, content = ''Warm-up'', km = 2\<rparr>,
                     \<lparr>id' = 2, content = ''Warm-up'', km = 2\<rparr>]\<rparr>"
    by (simp add: scenario1_def deleteLogEntry_def found_content_def)
  moreover have "subseq
         (labels (chartData [\<lparr>id' = ''1'', content = ''Warm-up'', km = 2, count = 2\<rparr>]))
         (labels (chartData (graphData scenario1)))"
    using series del by fastforce
  ultimately show ?thesis
    by simp
qed

end
